theory Spec2Isabelle
  imports Main "HOL-Library.Word"
begin

unbundle bit_operations_syntax

section \<open>ccsniffer: the CC2531 USB sniffer driver\<close>

text \<open>
  A shallow embedding of \<^verbatim>\<open>ccsniffer.py\<close>: the frame decoder
  \<^verbatim>\<open>CC2531.parse_packet\<close>, the receiver loop \<^verbatim>\<open>CC2531.recv\<close> and the
  control operations \<^verbatim>\<open>__init__\<close>, \<^verbatim>\<open>start\<close>, \<^verbatim>\<open>stop\<close>,
  \<^verbatim>\<open>set_channel\<close> and \<^verbatim>\<open>__del__\<close>.

  Buffers read from the device are \<^verbatim>\<open>array('B')\<close> objects, modelled as lists of
  8-bit words; an element read from such an array is a Python integer, \<open>uint\<close> of the
  word. Python integers are \<open>int\<close>. Every exception the code can raise is a value of
  \<open>error\<close>.
\<close>

subsection \<open>Python exceptions, indexing and slicing\<close>

datatype error = IndexError | ValueError | IOError | TypeError | AttributeError | USBError

text \<open>\<^verbatim>\<open>xs[i]\<close>: a negative index counts from the end, an index out of range raises.\<close>

definition py_index :: "'a list \<Rightarrow> int \<Rightarrow> error + 'a" where
  "py_index xs i =
     (let n = int (length xs); j = (if i < 0 then i + n else i)
      in if 0 \<le> j \<and> j < n then Inr (xs ! nat j) else Inl IndexError)"

text \<open>
  \<^verbatim>\<open>xs[lo:hi]\<close> with step 1: a missing bound is the start or the end, a negative bound
  counts from the end, and both bounds are clipped to the list; a slice never raises.
\<close>

definition py_slice :: "'a list \<Rightarrow> int option \<Rightarrow> int option \<Rightarrow> 'a list" where
  "py_slice xs lo hi =
     (let n = int (length xs);
          clip = (\<lambda>i. if i < 0 then max (i + n) 0 else min i n);
          a = (case lo of None \<Rightarrow> 0 | Some i \<Rightarrow> clip i);
          b = (case hi of None \<Rightarrow> n | Some j \<Rightarrow> clip j)
      in drop (nat a) (take (nat b) xs))"

subsection \<open>Packet\<close>

text \<open>
  The class \<^verbatim>\<open>Packet\<close>. The timestamp is the value of \<^verbatim>\<open>time.gmtime()\<close> at
  decode time, here a number read from the clock.
\<close>

record Packet =
  timestamp :: nat
  channel :: int
  header :: "8 word list"
  payload :: "8 word list"
  rssi :: int
  crc_ok :: bool
  correlation :: int

subsection \<open>The frame decoder\<close>

text \<open>
  \<^verbatim>\<open>parse_packet(self, packet)\<close>. The arguments \<open>self_channel\<close> and \<open>now\<close> are
  what the method reads from its surroundings: \<^verbatim>\<open>self.channel\<close> and
  \<^verbatim>\<open>time.gmtime()\<close>. The result \<open>Inr None\<close> is \<^verbatim>\<open>return None\<close>, \<open>Inl e\<close> is
  an exception leaving the method. The statements are in the order of the source:
  \<^verbatim>\<open>packet[1]\<close>, the first length check, the two slices, \<^verbatim>\<open>packet[7]\<close>, the second
  length check, the unpacking of \<^verbatim>\<open>packet[-2:]\<close> (which raises ValueError unless the
  slice has exactly two elements), and the three derived values.
\<close>

definition parse_packet :: "int \<Rightarrow> nat \<Rightarrow> 8 word list \<Rightarrow> error + Packet option" where
  "parse_packet self_channel now packet =
     (case py_index packet 1 of
        Inl e \<Rightarrow> Inl e
      | Inr b1 \<Rightarrow>
          let packetlen = uint b1 in
          if int (length packet) - 3 \<noteq> packetlen then Inr None
          else
            let hdr = py_slice packet (Some 3) (Some 7);
                pl = py_slice packet (Some 8) (Some (- 2))
            in (case py_index packet 7 of
                  Inl e \<Rightarrow> Inl e
                | Inr b7 \<Rightarrow>
                    let payloadlen = uint b7 - 2 in
                    if int (length pl) \<noteq> payloadlen then Inr None
                    else
                      (case py_slice packet (Some (- 2)) None of
                         [fcs1, fcs2] \<Rightarrow>
                           Inr (Some \<lparr>timestamp = now,
                                      channel = self_channel,
                                      header = hdr,
                                      payload = pl,
                                      rssi = (uint fcs1 + 2 ^ 7) mod 2 ^ 8 - 2 ^ 7 - 73,
                                      crc_ok = ((uint fcs2 AND push_bit 7 1) > 0),
                                      correlation = uint fcs2 AND 0x7f\<rparr>)
                       | _ \<Rightarrow> Inl ValueError)))"

text \<open>
  The specification's \<open>signed8\<close>: an unsigned byte 0..255 read as a two's-complement
  value, \<open>((x + 128) mod 256) - 128\<close>. It is stated from the specification and compared
  with what \<open>parse_packet\<close> computes.
\<close>

definition signed8 :: "int \<Rightarrow> int" where
  "signed8 x = ((x + 128) mod 256) - 128"

subsection \<open>The receiver loop\<close>

text \<open>The outcome of a USB transfer: the library raises \<^verbatim>\<open>USBError\<close>, or data arrives.\<close>

datatype reply = Fail | Reply "8 word list"

text \<open>
  \<^verbatim>\<open>recv(self)\<close> runs \<^verbatim>\<open>while self.running\<close> on a thread of its own. The model
  takes the iterations during which the flag was seen true as a list: each gives the
  channel and the clock at that moment and the outcome of \<^verbatim>\<open>self.dev.read\<close>. It
  returns the packets handed to the callback, in order, and the exception that ended the
  loop, if one did. A Packet object is always true in \<^verbatim>\<open>if packet:\<close>, so the callback
  is called exactly when \<open>parse_packet\<close> returns a Packet.
\<close>

definition recv_body :: "int \<Rightarrow> nat \<Rightarrow> reply \<Rightarrow> error + Packet option" where
  "recv_body self_channel now rd =
     (case rd of
        Fail \<Rightarrow> Inl USBError
      | Reply ret \<Rightarrow>
          (case py_index ret 0 of
             Inl e \<Rightarrow> Inl e
           | Inr b0 \<Rightarrow>
               if uint b0 = 0 then parse_packet self_channel now ret
               else Inr None))"

fun recv :: "(int \<times> nat \<times> reply) list \<Rightarrow> error option \<times> Packet list" where
  "recv [] = (None, [])"
| "recv ((ch, now, rd) # rest) =
     (case recv_body ch now rd of
        Inl e \<Rightarrow> (Some e, [])
      | Inr None \<Rightarrow> recv rest
      | Inr (Some p) \<Rightarrow> (case recv rest of (r, ps) \<Rightarrow> (r, p # ps)))"

subsection \<open>The device and the controller\<close>

text \<open>
  The arguments of \<^verbatim>\<open>ctrl_transfer(bmRequestType, bRequest, wValue, wIndex,
  data_or_wLength)\<close>; the last one is absent, a length to read, or the bytes to write.
\<close>

datatype data_or_wLength = NoData | WLength nat | Data "int list"

text \<open>
  What the outside world sees of the driver, in order: the control transfers issued on
  the device, and the receiver threads started and joined. A thread is named by the
  number of threads started before it.
\<close>

datatype event =
    CtrlTransfer nat nat nat nat data_or_wLength
  | ThreadStart nat
  | ThreadJoin nat

text \<open>What \<^verbatim>\<open>usb.core.find\<close> does: it returns None, raises USBError, or finds the device.\<close>

datatype found = NoDevice | Denied | Device

text \<open>The class constants.\<close>

abbreviation (input) DEFAULT_CHANNEL :: int where "DEFAULT_CHANNEL \<equiv> 0x0b"
abbreviation (input) DIR_OUT :: nat where "DIR_OUT \<equiv> 0x40"
abbreviation (input) DIR_IN :: nat where "DIR_IN \<equiv> 0xc0"
abbreviation (input) GET_IDENT :: nat where "GET_IDENT \<equiv> 0xc0"
abbreviation (input) SET_POWER :: nat where "SET_POWER \<equiv> 0xc5"
abbreviation (input) GET_POWER :: nat where "GET_POWER \<equiv> 0xc6"
abbreviation (input) SET_START :: nat where "SET_START \<equiv> 0xd0"
abbreviation (input) SET_STOP :: nat where "SET_STOP \<equiv> 0xd1"
abbreviation (input) SET_CHAN :: nat where "SET_CHAN \<equiv> 0xd2"

text \<open>
  The state the methods of \<^verbatim>\<open>CC2531\<close> work on. The first group of fields is the
  object: \<open>dev\<close> says whether \<^verbatim>\<open>self.dev\<close> holds a device handle, \<open>name\<close> and
  \<open>ident\<close> are None until \<^verbatim>\<open>__init__\<close> assigns them, \<open>thread\<close> is the stored
  thread. The second group is the world around it: what \<^verbatim>\<open>usb.core.find\<close>,
  \<^verbatim>\<open>set_configuration\<close> and \<^verbatim>\<open>usb.util.get_string\<close> do, the outcome
  \<open>replies n\<close> of the control transfer number \<open>n\<close> (any device behaviour is such a
  function), the number \<open>xfers\<close> of control transfers issued so far, the number
  \<open>spawned\<close> of threads started so far, and the \<open>events\<close> so far.
\<close>

record CC2531 =
  dev :: bool
  channel :: int
  thread :: "nat option"
  running :: bool
  name :: "string option"
  ident :: "8 word list option"
  found :: found
  config_ok :: bool
  descriptor :: "string option"
  replies :: "nat \<Rightarrow> reply"
  xfers :: nat
  spawned :: nat
  events :: "event list"

text \<open>
  \<^verbatim>\<open>self.dev.ctrl_transfer(...)\<close>: the transfer is issued, and the device answers
  with data or the library raises USBError.
\<close>

definition ctrl_transfer ::
  "CC2531 \<Rightarrow> nat \<Rightarrow> nat \<Rightarrow> nat \<Rightarrow> nat \<Rightarrow> data_or_wLength \<Rightarrow> (error + 8 word list) \<times> CC2531" where
  "ctrl_transfer s bmRequestType bRequest wValue wIndex d =
     (let s' = s\<lparr>xfers := Suc (xfers s),
                 events := events s @ [CtrlTransfer bmRequestType bRequest wValue wIndex d]\<rparr>
      in case replies s (xfers s) of
           Fail \<Rightarrow> (Inl USBError, s')
         | Reply bs \<Rightarrow> (Inr bs, s'))"

text \<open>
  The methods return the exception they raise, if any, and the state they leave: an
  exception does not undo the assignments made before it.

  \<^verbatim>\<open>start(self)\<close>: sets the flag, issues the start command, then creates and starts
  the receiver thread and stores it. There is no test of \<^verbatim>\<open>self.running\<close>.
\<close>

definition start :: "CC2531 \<Rightarrow> error option \<times> CC2531" where
  "start s =
     (let s1 = s\<lparr>running := True\<rparr> in
      case ctrl_transfer s1 DIR_OUT SET_START 0 0 NoData of
        (Inl e, s2) \<Rightarrow> (Some e, s2)
      | (Inr _, s2) \<Rightarrow>
          (None, s2\<lparr>thread := Some (spawned s2),
                     spawned := Suc (spawned s2),
                     events := events s2 @ [ThreadStart (spawned s2)]\<rparr>))"

text \<open>
  \<^verbatim>\<open>stop(self)\<close>: clears the flag, joins the stored thread (AttributeError when
  \<^verbatim>\<open>self.thread\<close> is None), then issues the stop command. The join is taken to
  return: the loop of \<open>recv\<close> ends once it sees the flag cleared.
\<close>

definition stop :: "CC2531 \<Rightarrow> error option \<times> CC2531" where
  "stop s =
     (let s1 = s\<lparr>running := False\<rparr> in
      case thread s1 of
        None \<Rightarrow> (Some AttributeError, s1)
      | Some t \<Rightarrow>
          let s2 = s1\<lparr>events := events s1 @ [ThreadJoin t]\<rparr> in
          (case ctrl_transfer s2 DIR_OUT SET_STOP 0 0 NoData of
             (Inl e, s3) \<Rightarrow> (Some e, s3)
           | (Inr _, s3) \<Rightarrow> (None, s3)))"

text \<open>\<^verbatim>\<open>set_channel(self, channel)\<close>.\<close>

definition set_channel :: "CC2531 \<Rightarrow> int \<Rightarrow> error option \<times> CC2531" where
  "set_channel s c =
     (let was_running = running s in
      if c \<ge> 11 \<and> c \<le> 26 then
        (case (if running s then stop s else (None, s)) of
           (Some e, s1) \<Rightarrow> (Some e, s1)
         | (None, s1) \<Rightarrow>
             let s2 = s1\<lparr>channel := c\<rparr> in
             (case ctrl_transfer s2 DIR_OUT SET_CHAN 0 0 (Data [c]) of
                (Inl e, s3) \<Rightarrow> (Some e, s3)
              | (Inr _, s3) \<Rightarrow>
                  (case ctrl_transfer s3 DIR_OUT SET_CHAN 0 1 (Data [0x00]) of
                     (Inl e, s4) \<Rightarrow> (Some e, s4)
                   | (Inr _, s4) \<Rightarrow> if was_running then start s4 else (None, s4))))
      else (Some ValueError, s))"

text \<open>
  The loop of \<^verbatim>\<open>__init__\<close> that waits for the radio:
  \<^verbatim>\<open>while True: power_status = ctrl_transfer(DIR_IN, GET_POWER, 0, 0, 1);
  if power_status[0] == 4: break; time.sleep(0.1)\<close>. It has no counter and no
  deadline, so it is a partial function: \<open>None\<close> is a loop that never ends.
\<close>

partial_function (option) power_wait :: "CC2531 \<Rightarrow> (error option \<times> CC2531) option" where
  "power_wait s =
     (case ctrl_transfer s DIR_IN GET_POWER 0 0 (WLength 1) of
        (Inl e, s1) \<Rightarrow> Some (Some e, s1)
      | (Inr power_status, s1) \<Rightarrow>
          (case py_index power_status 0 of
             Inl e \<Rightarrow> Some (Some e, s1)
           | Inr b \<Rightarrow> if uint b = 4 then Some (None, s1) else power_wait s1))"

text \<open>
  \<^verbatim>\<open>__init__(self, callback, channel)\<close>, run in the world \<open>env\<close>. The fields are
  assigned first, the channel as it was passed; \<^verbatim>\<open>set_channel\<close> is the last
  statement. The result is \<open>None\<close> when the constructor never returns.

  When \<^verbatim>\<open>usb.core.find\<close> raises USBError, the handler runs
  \<^verbatim>\<open>raise OSError("...", errno=errno.EACCES)\<close>. OSError takes no keyword arguments, so
  building the exception object raises TypeError, and TypeError is what leaves the
  constructor. The callback is only used by \<open>recv\<close>.
\<close>

definition init :: "CC2531 \<Rightarrow> int \<Rightarrow> (error option \<times> CC2531) option" where
  "init env c =
     (let s0 = env\<lparr>dev := False, channel := c, thread := None, running := False,
                   name := None, ident := None\<rparr> in
      case found s0 of
        Denied \<Rightarrow> Some (Some TypeError, s0)
      | NoDevice \<Rightarrow> Some (Some IOError, s0)
      | Device \<Rightarrow>
          let s1 = s0\<lparr>dev := True\<rparr> in
          if \<not> config_ok s1 then Some (Some USBError, s1)
          else
            (case descriptor s1 of
               None \<Rightarrow> Some (Some USBError, s1)
             | Some nm \<Rightarrow>
                 let s2 = s1\<lparr>name := Some nm\<rparr> in
                 (case ctrl_transfer s2 DIR_IN GET_IDENT 0 0 (WLength 256) of
                    (Inl e, s3) \<Rightarrow> Some (Some e, s3)
                  | (Inr idt, s3) \<Rightarrow>
                      let s4 = s3\<lparr>ident := Some idt\<rparr> in
                      (case ctrl_transfer s4 DIR_OUT SET_POWER 0 4 NoData of
                         (Inl e, s5) \<Rightarrow> Some (Some e, s5)
                       | (Inr _, s5) \<Rightarrow>
                           (case power_wait s5 of
                              None \<Rightarrow> None
                            | Some (Some e, s6) \<Rightarrow> Some (Some e, s6)
                            | Some (None, s6) \<Rightarrow> Some (set_channel s6 c))))))"

text \<open>\<^verbatim>\<open>__del__(self)\<close>: powers the radio off when a device handle is held.\<close>

definition del :: "CC2531 \<Rightarrow> error option \<times> CC2531" where
  "del s =
     (if dev s then
        (case ctrl_transfer s DIR_OUT SET_POWER 0 0 NoData of
           (Inl e, s1) \<Rightarrow> (Some e, s1)
         | (Inr _, s1) \<Rightarrow> (None, s1))
      else (None, s))"

text \<open>
  A caller works on a constructed controller through \<^verbatim>\<open>set_channel\<close>,
  \<^verbatim>\<open>start\<close> and \<^verbatim>\<open>stop\<close>. \<open>calls\<close> gives the state after a sequence of calls
  by a caller that catches each exception and goes on.
\<close>

datatype call = SetChannel int | Start | Stop

fun do_call :: "CC2531 \<Rightarrow> call \<Rightarrow> error option \<times> CC2531" where
  "do_call s (SetChannel c) = set_channel s c"
| "do_call s Start = start s"
| "do_call s Stop = stop s"

fun calls :: "CC2531 \<Rightarrow> call list \<Rightarrow> CC2531" where
  "calls s [] = s"
| "calls s (x # xs) = calls (snd (do_call s x)) xs"

text \<open>
  Example worlds: a dongle that is found and configured and answers every control
  transfer with the one byte \<open>b\<close>. With \<open>b = 4\<close> it reports the radio powered at the
  first query; with any other byte it never does.
\<close>

definition dongle :: "8 word \<Rightarrow> CC2531" where
  "dongle b =
     \<lparr>dev = False, channel = 0, thread = None, running = False, name = None, ident = None,
      found = Device, config_ok = True, descriptor = Some ''CC2531 USB Dongle'',
      replies = (\<lambda>n. Reply [b]), xfers = 0, spawned = 0, events = []\<rparr>"

text \<open>
  \<open>idle\<close> is the controller that \<open>init (dongle 4) 15\<close> returns and \<open>streaming\<close> the
  one that \<open>start idle\<close> leaves (lemmas \<open>init_dongle_idle\<close> and \<open>start_idle\<close>).
\<close>

definition idle :: CC2531 where
  "idle =
     \<lparr>dev = True, channel = 15, thread = None, running = False,
      name = Some ''CC2531 USB Dongle'', ident = Some [4],
      found = Device, config_ok = True, descriptor = Some ''CC2531 USB Dongle'',
      replies = (\<lambda>n. Reply [4]), xfers = 5, spawned = 0,
      events = [CtrlTransfer DIR_IN GET_IDENT 0 0 (WLength 256),
                CtrlTransfer DIR_OUT SET_POWER 0 4 NoData,
                CtrlTransfer DIR_IN GET_POWER 0 0 (WLength 1),
                CtrlTransfer DIR_OUT SET_CHAN 0 0 (Data [15]),
                CtrlTransfer DIR_OUT SET_CHAN 0 1 (Data [0])]\<rparr>"

definition streaming :: CC2531 where
  "streaming =
     idle\<lparr>thread := Some 0, running := True, xfers := 6, spawned := 1,
          events := events idle @ [CtrlTransfer DIR_OUT SET_START 0 0 NoData, ThreadStart 0]\<rparr>"

text \<open>
  \<open>started_twice\<close> is the controller after \<^verbatim>\<open>start()\<close> has been called a second
  time without a \<^verbatim>\<open>stop()\<close> in between (lemma \<open>calls_idle_started_twice\<close>).
\<close>

definition started_twice :: CC2531 where
  "started_twice = snd (start streaming)"

subsection \<open>Receiver threads that may still be running\<close>



section \<open>Properties\<close>

subsection \<open>Indexing and slicing\<close>

lemma drop_last_two:
  assumes "2 \<le> length xs"
  shows "drop (length xs - 2) xs = [xs ! (length xs - 2), xs ! (length xs - 1)]"
proof (rule nth_equalityI)
  show "length (drop (length xs - 2) xs) = length [xs ! (length xs - 2), xs ! (length xs - 1)]"
    using assms by simp
next
  fix i assume "i < length (drop (length xs - 2) xs)"
  then have "i < 2" using assms by simp
  then have "i = 0 \<or> i = 1" by arith
  moreover have "Suc (length xs - 2) = length xs - 1" using assms by arith
  ultimately show "drop (length xs - 2) xs ! i = [xs ! (length xs - 2), xs ! (length xs - 1)] ! i"
    using assms by auto
qed

lemma py_slice_tail2:
  "2 \<le> length xs \<Longrightarrow> py_slice xs (Some (- 2)) None = [xs ! (length xs - 2), xs ! (length xs - 1)]"
  using drop_last_two [of xs] by (simp add: py_slice_def Let_def nat_diff_distrib)

lemma py_index_in: "0 \<le> i \<Longrightarrow> nat i < length xs \<Longrightarrow> py_index xs i = Inr (xs ! nat i)"
  by (auto simp: py_index_def Let_def)

lemma py_index_out: "0 \<le> i \<Longrightarrow> length xs \<le> nat i \<Longrightarrow> py_index xs i = Inl IndexError"
  by (auto simp: py_index_def Let_def)

subsection \<open>The frame decoder\<close>

text \<open>
  When \<open>parse_packet\<close> returns a Packet, and what that Packet is: the buffer has at least
  eight bytes, both length checks hold, and every field is a function of the buffer, the
  channel and the clock.
\<close>

lemma parse_packet_accept_iff:
  "parse_packet ch now buf = Inr (Some p) \<longleftrightarrow>
     8 \<le> length buf \<and> uint (buf ! 1) = int (length buf) - 3 \<and>
     uint (buf ! 7) - 2 = int (length (py_slice buf (Some 8) (Some (- 2)))) \<and>
     p = \<lparr>timestamp = now, Packet.channel = ch,
          header = py_slice buf (Some 3) (Some 7),
          payload = py_slice buf (Some 8) (Some (- 2)),
          rssi = (uint (buf ! (length buf - 2)) + 2 ^ 7) mod 2 ^ 8 - 2 ^ 7 - 73,
          crc_ok = (uint (buf ! (length buf - 1)) AND push_bit 7 1 > 0),
          correlation = uint (buf ! (length buf - 1)) AND 0x7f\<rparr>"
proof (cases "8 \<le> length buf")
  case True
  then have i1: "py_index buf 1 = Inr (buf ! 1)" and i7: "py_index buf 7 = Inr (buf ! 7)"
    by (simp_all add: py_index_def Let_def)
  have t: "py_slice buf (Some (- 2)) None = [buf ! (length buf - 2), buf ! (length buf - 1)]"
    using True by (simp add: py_slice_tail2)
  show ?thesis using True
    by (auto simp: parse_packet_def i1 i7 t Let_def)
next
  case False
  show ?thesis
  proof (cases "2 \<le> length buf")
    case True
    then have i1: "py_index buf 1 = Inr (buf ! 1)" by (simp add: py_index_def Let_def)
    have i7: "py_index buf 7 = Inl IndexError" using False by (simp add: py_index_def Let_def)
    show ?thesis using False by (auto simp: parse_packet_def i1 i7 Let_def)
  next
    case F2: False
    then have i1: "py_index buf 1 = Inl IndexError" by (simp add: py_index_def Let_def)
    show ?thesis using False by (auto simp: parse_packet_def i1)
  qed
qed

lemma pos_iff_nonzero: "0 \<le> (x::int) \<Longrightarrow> (0 < x) = (x \<noteq> 0)"
  by arith

lemma signed8_code: "(x + 2 ^ 7) mod 2 ^ 8 - 2 ^ 7 = signed8 (x::int)"
  by (simp add: signed8_def)

lemma bit7_test: "((uint (w::8 word) AND push_bit 7 1) > 0) = bit w 7"
proof -
  have nonneg: "0 \<le> uint w AND push_bit 7 1"
    by simp
  have "(uint w AND 2 ^ 7 = 0) = (\<not> bit (uint w) 7)"
    by (rule and_exp_eq_0_iff_not_bit)
  then have "(uint w AND push_bit 7 1 = 0) = (\<not> bit w 7)"
    by (simp add: bit_uint_iff)
  with nonneg show ?thesis by linarith
qed

lemma parse_packet_long_buffer_no_raise:
  "8 \<le> length buf \<Longrightarrow> \<exists>r. parse_packet ch now buf = Inr r"
  by (simp add: parse_packet_def py_index_def py_slice_tail2 Let_def)

text \<open>
  Claim C1. For every buffer the decoder accepts, the Packet has
  \<open>rssi = signed8 fcs1 - 73\<close>, where \<open>fcs1\<close> is the second-to-last byte and \<open>signed8\<close>
  is the specification's \<open>((x + 128) mod 256) - 128\<close>; \<open>crc_ok\<close> says that bit 7 of the
  last byte \<open>fcs2\<close> is set (\<open>fcs2 AND 0x80\<close> is not 0); \<open>correlation = fcs2 AND 0x7F\<close>.
  In particular \<open>fcs1 = 0xD6\<close> gives \<open>rssi = -115\<close>, and \<open>fcs2 = 0x85\<close> gives
  \<open>crc_ok\<close> true and \<open>correlation = 5\<close>.
\<close>

theorem parse_packet_status_bytes:
  assumes "parse_packet ch now buf = Inr (Some p)"
  shows "2 \<le> length buf \<and>
         rssi p = signed8 (uint (buf ! (length buf - 2))) - 73 \<and>
         crc_ok p = bit (buf ! (length buf - 1)) 7 \<and>
         crc_ok p = (uint (buf ! (length buf - 1)) AND 0x80 \<noteq> 0) \<and>
         correlation p = uint (buf ! (length buf - 1)) AND 0x7F \<and>
         (buf ! (length buf - 2) = 0xD6 \<longrightarrow> rssi p = - 115) \<and>
         (buf ! (length buf - 1) = 0x85 \<longrightarrow> crc_ok p \<and> correlation p = 5)"
proof -
  from assms have len: "8 \<le> length buf"
    and r: "rssi p = (uint (buf ! (length buf - 2)) + 2 ^ 7) mod 2 ^ 8 - 2 ^ 7 - 73"
    and c: "crc_ok p = ((uint (buf ! (length buf - 1)) AND push_bit 7 1) > 0)"
    and q: "correlation p = uint (buf ! (length buf - 1)) AND 0x7f"
    by (simp_all add: parse_packet_accept_iff)
  have r': "rssi p = signed8 (uint (buf ! (length buf - 2))) - 73"
    using r by (simp add: signed8_def)
  have c': "crc_ok p = bit (buf ! (length buf - 1)) 7"
    using c by (simp only: bit7_test)
  have c'': "crc_ok p = (uint (buf ! (length buf - 1)) AND 0x80 \<noteq> 0)"
  proof -
    have nonneg: "0 \<le> uint (buf ! (length buf - 1)) AND 0x80"
      by simp
    have "crc_ok p = (0 < uint (buf ! (length buf - 1)) AND 0x80)"
      using c by simp
    also have "\<dots> = (uint (buf ! (length buf - 1)) AND 0x80 \<noteq> 0)"
      using nonneg by (rule pos_iff_nonzero)
    finally show ?thesis .
  qed
  have e1: "buf ! (length buf - 2) = 0xD6 \<longrightarrow> rssi p = - 115"
    using r' by (simp add: signed8_def)
  have e2: "buf ! (length buf - 1) = 0x85 \<longrightarrow> crc_ok p \<and> correlation p = 5"
    using c' q by simp
  from len r' c' c'' q e1 e2 show ?thesis by simp
qed

theorem parse_packet_status_bytes_witness:
  "parse_packet 15 0 [0, 10, 0, 1, 2, 3, 4, 5, 1, 2, 3, 0xD6, 0x85] =
     Inr (Some \<lparr>timestamp = 0, Packet.channel = 15, header = [1, 2, 3, 4], payload = [1, 2, 3],
                rssi = - 115, crc_ok = True, correlation = 5\<rparr>) \<and>
   [0, 10, 0, 1, 2, 3, 4, 5, 1, 2, 3, 0xD6, 0x85 :: 8 word] ! (13 - 2) = 0xD6 \<and>
   [0, 10, 0, 1, 2, 3, 4, 5, 1, 2, 3, 0xD6, 0x85 :: 8 word] ! (13 - 1) = 0x85 \<and>
   signed8 (uint (0xD6 :: 8 word)) - 73 = - 115 \<and>
   bit (0x85 :: 8 word) 7 \<and>
   uint (0x85 :: 8 word) AND 0x7F = 5"
proof -
  have h: "parse_packet 15 0 [0, 10, 0, 1, 2, 3, 4, 5, 1, 2, 3, 0xD6, 0x85] =
     Inr (Some \<lparr>timestamp = 0, Packet.channel = 15, header = [1, 2, 3, 4], payload = [1, 2, 3],
                rssi = - 115, crc_ok = True, correlation = 5\<rparr>)"
    by (simp add: parse_packet_def py_index_def py_slice_def)
  from parse_packet_status_bytes [OF h] h show ?thesis by simp
qed

text \<open>
  Claim C2. A buffer whose byte 1 differs from its length minus 3 is rejected with
  \<^verbatim>\<open>return None\<close>, and so is a buffer whose byte 7 minus 2 differs from the length of
  the extracted payload \<^verbatim>\<open>packet[8:-2]\<close>. (A buffer has a byte 1 when it has two bytes,
  and a byte 7 when it has eight.)
\<close>

theorem parse_packet_rejects_length_mismatch:
  "(2 \<le> length buf \<and> uint (buf ! 1) \<noteq> int (length buf) - 3
      \<longrightarrow> parse_packet ch now buf = Inr None) \<and>
   (8 \<le> length buf \<and>
    uint (buf ! 7) - 2 \<noteq> int (length (py_slice buf (Some 8) (Some (- 2))))
      \<longrightarrow> parse_packet ch now buf = Inr None)"
proof (intro conjI impI)
  assume h: "2 \<le> length buf \<and> uint (buf ! 1) \<noteq> int (length buf) - 3"
  then have "py_index buf 1 = Inr (buf ! 1)" by (simp add: py_index_def)
  with h show "parse_packet ch now buf = Inr None"
    by (simp add: parse_packet_def)
next
  assume h: "8 \<le> length buf \<and>
    uint (buf ! 7) - 2 \<noteq> int (length (py_slice buf (Some 8) (Some (- 2))))"
  then have "py_index buf 1 = Inr (buf ! 1)" and "py_index buf 7 = Inr (buf ! 7)"
    by (simp_all add: py_index_def)
  with h show "parse_packet ch now buf = Inr None"
    by (simp add: parse_packet_def Let_def)
qed

theorem parse_packet_rejects_length_mismatch_witness:
  "2 \<le> length [0, 9, 0, 1, 2, 3, 4, 5, 1, 2, 3, 0, 0 :: 8 word] \<and>
   uint ([0, 9, 0, 1, 2, 3, 4, 5, 1, 2, 3, 0, 0 :: 8 word] ! 1) \<noteq> 13 - 3 \<and>
   parse_packet 11 0 [0, 9, 0, 1, 2, 3, 4, 5, 1, 2, 3, 0, 0] = Inr None \<and>
   8 \<le> length [0, 10, 0, 1, 2, 3, 4, 6, 1, 2, 3, 0, 0 :: 8 word] \<and>
   uint ([0, 10, 0, 1, 2, 3, 4, 6, 1, 2, 3, 0, 0 :: 8 word] ! 7) - 2 \<noteq>
     int (length (py_slice [0, 10, 0, 1, 2, 3, 4, 6, 1, 2, 3, 0, 0 :: 8 word] (Some 8) (Some (- 2)))) \<and>
   parse_packet 11 0 [0, 10, 0, 1, 2, 3, 4, 6, 1, 2, 3, 0, 0] = Inr None"
  using parse_packet_rejects_length_mismatch [of "[0, 9, 0, 1, 2, 3, 4, 5, 1, 2, 3, 0, 0]" 11 0]
    parse_packet_rejects_length_mismatch [of "[0, 10, 0, 1, 2, 3, 4, 6, 1, 2, 3, 0, 0]" 11 0]
  by (simp add: py_slice_def)

text \<open>
  Claim C3 says that the decoder returns a Packet or nothing for a buffer of any length
  and never raises. The code reads \<^verbatim>\<open>packet[1]\<close> and \<^verbatim>\<open>packet[7]\<close> without
  looking at the length first: the three-byte buffer \<open>[0, 0, 0]\<close> passes the first length
  check (its byte 1 is 0 = 3 - 3) and \<^verbatim>\<open>packet[7]\<close> raises IndexError; the empty
  buffer raises at \<^verbatim>\<open>packet[1]\<close>. In \<open>recv\<close> the exception is not caught and
  ends the receiver loop. Buffers of eight bytes or more never raise
  (\<open>parse_packet_long_buffer_no_raise\<close>).
\<close>

theorem parse_packet_short_buffer_raises:
  "parse_packet 11 0 [0, 0, 0] = Inl IndexError \<and> parse_packet 11 0 [] = Inl IndexError \<and>
   recv [(11, 0, Reply [0, 0, 0])] = (Some IndexError, [])"
  by (simp add: parse_packet_def py_index_def py_slice_def recv_body_def)

text \<open>
  Claim C9. Decoding an accepted buffer a second time, with the same channel, gives a
  Packet again, equal to the first in channel, header, payload, rssi, crc_ok and
  correlation; each timestamp is the clock at its own decode.
\<close>

theorem parse_packet_twice:
  assumes "parse_packet ch t1 buf = Inr (Some p1)"
  shows "\<exists>p2. parse_packet ch t2 buf = Inr (Some p2) \<and>
           Packet.channel p2 = Packet.channel p1 \<and> header p2 = header p1 \<and>
           payload p2 = payload p1 \<and> rssi p2 = rssi p1 \<and> crc_ok p2 = crc_ok p1 \<and>
           correlation p2 = correlation p1 \<and> timestamp p1 = t1 \<and> timestamp p2 = t2"
  using assms by (simp add: parse_packet_accept_iff)

theorem parse_packet_twice_witness:
  "parse_packet 15 7 [0, 10, 0, 1, 2, 3, 4, 5, 1, 2, 3, 0xD6, 0x85] =
     Inr (Some \<lparr>timestamp = 7, Packet.channel = 15, header = [1, 2, 3, 4], payload = [1, 2, 3],
                rssi = - 115, crc_ok = True, correlation = 5\<rparr>) \<and>
   parse_packet 15 9 [0, 10, 0, 1, 2, 3, 4, 5, 1, 2, 3, 0xD6, 0x85] =
     Inr (Some \<lparr>timestamp = 9, Packet.channel = 15, header = [1, 2, 3, 4], payload = [1, 2, 3],
                rssi = - 115, crc_ok = True, correlation = 5\<rparr>)"
proof -
  have h: "parse_packet 15 7 [0, 10, 0, 1, 2, 3, 4, 5, 1, 2, 3, 0xD6, 0x85] =
     Inr (Some \<lparr>timestamp = 7, Packet.channel = 15, header = [1, 2, 3, 4], payload = [1, 2, 3],
                rssi = - 115, crc_ok = True, correlation = 5\<rparr>)"
    by (simp add: parse_packet_def py_index_def py_slice_def)
  from parse_packet_twice [OF h, of 9] obtain p2 where
    "parse_packet 15 9 [0, 10, 0, 1, 2, 3, 4, 5, 1, 2, 3, 0xD6, 0x85] = Inr (Some p2)"
    "Packet.channel p2 = 15" "header p2 = [1, 2, 3, 4]" "payload p2 = [1, 2, 3]"
    "rssi p2 = - 115" "crc_ok p2 = True" "correlation p2 = 5" "timestamp p2 = 9"
    by auto
  with h show ?thesis by (cases p2) simp
qed

text \<open>
  Claim C10. The decoder does not look at byte 0: a buffer that passes both length checks
  is decoded to a Packet whatever its byte 0 is, also after byte 0 is replaced by any
  \<open>status\<close>. The test \<^verbatim>\<open>ret[0] == 0\<close> is made by the receiver loop only: with a non-zero
  byte 0 the loop body hands nothing to the callback, with a zero byte 0 it is the
  decoder's result.
\<close>

theorem parse_packet_ignores_status_byte:
  assumes "8 \<le> length buf"
    and "uint (buf ! 1) = int (length buf) - 3"
    and "uint (buf ! 7) - 2 = int (length (py_slice buf (Some 8) (Some (- 2))))"
  shows "(\<exists>p. parse_packet ch now buf = Inr (Some p)) \<and>
         (\<exists>p. parse_packet ch now (buf[0 := status]) = Inr (Some p)) \<and>
         (uint (buf ! 0) \<noteq> 0 \<longrightarrow> recv_body ch now (Reply buf) = Inr None) \<and>
         (uint (buf ! 0) = 0 \<longrightarrow> recv_body ch now (Reply buf) = parse_packet ch now buf)"
proof -
  have a: "\<exists>p. parse_packet ch now buf = Inr (Some p)"
    using assms by (simp add: parse_packet_accept_iff)
  have sl: "py_slice (buf[0 := status]) (Some 8) (Some (- 2)) = py_slice buf (Some 8) (Some (- 2))"
    using assms(1) by (simp add: py_slice_def Let_def take_update_swap)
  have b: "\<exists>p. parse_packet ch now (buf[0 := status]) = Inr (Some p)"
    using assms by (simp add: parse_packet_accept_iff sl)
  have i0: "py_index buf 0 = Inr (buf ! 0)"
    using assms(1) by (auto simp: py_index_def)
  show ?thesis using a b by (simp add: recv_body_def i0)
qed

theorem parse_packet_ignores_status_byte_witness:
  "(\<exists>p. parse_packet 15 0 [1, 10, 0, 1, 2, 3, 4, 5, 1, 2, 3, 0xD6, 0x85] = Inr (Some p)) \<and>
   recv_body 15 0 (Reply [1, 10, 0, 1, 2, 3, 4, 5, 1, 2, 3, 0xD6, 0x85]) = Inr None"
  using parse_packet_ignores_status_byte [of "[1, 10, 0, 1, 2, 3, 4, 5, 1, 2, 3, 0xD6, 0x85]" 15 0 1]
  by (simp add: py_slice_def)

subsection \<open>The controller\<close>

lemma ctrl_transfer_eq:
  "ctrl_transfer s rt rq v i d =
     (case replies s (xfers s) of Fail \<Rightarrow> Inl USBError | Reply bs \<Rightarrow> Inr bs,
      s\<lparr>xfers := Suc (xfers s), events := events s @ [CtrlTransfer rt rq v i d]\<rparr>)"
  by (simp add: ctrl_transfer_def Let_def split: reply.splits)

lemma start_channel: "channel (snd (start s)) = channel s"
  by (simp add: start_def ctrl_transfer_eq split: reply.splits)

lemma stop_channel: "channel (snd (stop s)) = channel s"
  by (simp add: stop_def Let_def ctrl_transfer_eq split: reply.splits option.splits)

lemma set_channel_channel:
  "channel (snd (set_channel s c)) = channel s \<or>
   (channel (snd (set_channel s c)) = c \<and> 11 \<le> c \<and> c \<le> 26)"
  by (simp add: set_channel_def start_def stop_def Let_def ctrl_transfer_eq
      split: reply.splits option.splits)

lemma set_channel_ok_channel:
  "set_channel s c = (None, s') \<Longrightarrow> channel s' = c \<and> 11 \<le> c \<and> c \<le> 26"
  by (auto simp: set_channel_def start_def stop_def Let_def ctrl_transfer_eq
      split: reply.splits option.splits if_splits)

lemma do_call_channel:
  "11 \<le> channel s \<and> channel s \<le> 26 \<Longrightarrow>
   11 \<le> channel (snd (do_call s x)) \<and> channel (snd (do_call s x)) \<le> 26"
proof (cases x)
  case (SetChannel c)
  assume "11 \<le> channel s \<and> channel s \<le> 26"
  with set_channel_channel [of s c] SetChannel show ?thesis by auto
qed (simp_all add: start_channel stop_channel)

lemma calls_channel:
  "11 \<le> channel s \<and> channel s \<le> 26 \<Longrightarrow>
   11 \<le> channel (calls s xs) \<and> channel (calls s xs) \<le> 26"
proof (induction xs arbitrary: s)
  case Nil
  then show ?case by simp
next
  case (Cons x xs)
  from Cons.prems have "11 \<le> channel (snd (do_call s x)) \<and> channel (snd (do_call s x)) \<le> 26"
    by (rule do_call_channel)
  then show ?case using Cons.IH by simp
qed

lemma init_ok_set_channel:
  "init env c = Some (None, s) \<Longrightarrow> \<exists>s6. set_channel s6 c = (None, s)"
  by (auto simp: init_def Let_def ctrl_transfer_eq
      split: found.splits if_splits option.splits reply.splits prod.splits)

lemma calls_thread_fresh:
  "(\<forall>t. thread s = Some t \<longrightarrow> t < spawned s) \<Longrightarrow>
   thread (calls s xs) = Some t \<Longrightarrow> t < spawned (calls s xs)"
proof (induction xs arbitrary: s)
  case Nil
  then show ?case by simp
next
  case (Cons x xs)
  have "\<forall>t. thread (snd (do_call s x)) = Some t \<longrightarrow> t < spawned (snd (do_call s x))"
    using Cons.prems(1)
    by (cases x)
       (auto simp: set_channel_def start_def stop_def Let_def ctrl_transfer_eq
             split: reply.splits option.splits if_splits)
  from Cons.IH [OF this] Cons.prems(2) show ?case by simp
qed

text \<open>
  The power loop, unfolded once; and the example worlds: \<open>init (dongle 4) 15\<close> returns
  \<open>idle\<close>, \<open>start idle\<close> leaves \<open>streaming\<close>.
\<close>

lemma power_wait_unfold:
  "power_wait s =
     (case replies s (xfers s) of
        Fail \<Rightarrow> Some (Some USBError, snd (ctrl_transfer s DIR_IN GET_POWER 0 0 (WLength 1)))
      | Reply bs \<Rightarrow>
          (case bs of
             [] \<Rightarrow> Some (Some IndexError, snd (ctrl_transfer s DIR_IN GET_POWER 0 0 (WLength 1)))
           | b # _ \<Rightarrow>
               if uint b = 4
               then Some (None, snd (ctrl_transfer s DIR_IN GET_POWER 0 0 (WLength 1)))
               else power_wait (snd (ctrl_transfer s DIR_IN GET_POWER 0 0 (WLength 1)))))"
  by (subst power_wait.simps)
     (simp add: ctrl_transfer_eq py_index_def split: reply.splits list.splits)

lemma init_dongle_idle: "init (dongle 4) 15 = Some (None, idle)"
  by (simp add: init_def dongle_def idle_def set_channel_def ctrl_transfer_eq power_wait_unfold)

lemma start_idle: "start idle = (None, streaming)"
  by (simp add: start_def idle_def streaming_def ctrl_transfer_eq)

lemma calls_example:
  "channel (calls idle [SetChannel 5, Start, SetChannel 20, Stop, Stop]) = 20"
  by (simp add: idle_def set_channel_def start_def stop_def ctrl_transfer_eq)



lemma calls_idle_started_twice: "calls idle [Start, Start] = started_twice"
  by (simp add: started_twice_def start_idle)

text \<open>
  If the power loop returns, some query from the current one on was not answered with a
  first byte other than 4: it failed, came back empty, or reported 4. So the loop never
  returns on a device that answers every query with another byte; and it returns after
  \<open>k + 1\<close> queries when query \<open>k\<close> is the first to report 4.
\<close>

lemma power_wait_Some_reason:
  assumes "power_wait s = Some r"
  shows "\<exists>n\<ge>xfers s. \<not> (\<exists>b bs. replies s n = Reply (b # bs) \<and> uint b \<noteq> 4)"
proof (rule power_wait.raw_induct
    [where P = "\<lambda>s r. \<exists>n\<ge>xfers s. \<not> (\<exists>b bs. replies s n = Reply (b # bs) \<and> uint b \<noteq> 4)",
     OF _ assms])
  fix pw :: "CC2531 \<Rightarrow> (error option \<times> CC2531) option" and s r
  assume IH: "\<And>s r. pw s = Some r \<Longrightarrow>
      \<exists>n\<ge>xfers s. \<not> (\<exists>b bs. replies s n = Reply (b # bs) \<and> uint b \<noteq> 4)"
    and step: "(case ctrl_transfer s DIR_IN GET_POWER 0 0 (WLength 1) of
        (Inl e, s1) \<Rightarrow> Some (Some e, s1)
      | (Inr power_status, s1) \<Rightarrow>
          (case py_index power_status 0 of
             Inl e \<Rightarrow> Some (Some e, s1)
           | Inr b \<Rightarrow> if uint b = 4 then Some (None, s1) else pw s1)) = Some r"
  show "\<exists>n\<ge>xfers s. \<not> (\<exists>b bs. replies s n = Reply (b # bs) \<and> uint b \<noteq> 4)"
  proof (cases "\<exists>b bs. replies s (xfers s) = Reply (b # bs) \<and> uint b \<noteq> 4")
    case False
    then show ?thesis by blast
  next
    case True
    then obtain b bs where rb: "replies s (xfers s) = Reply (b # bs)" and nb: "uint b \<noteq> 4"
      by blast
    from step rb nb
    have "pw (s\<lparr>xfers := Suc (xfers s),
                events := events s @ [CtrlTransfer DIR_IN GET_POWER 0 0 (WLength 1)]\<rparr>) = Some r"
      by (simp add: ctrl_transfer_eq py_index_def)
    from IH [OF this]
    have "\<exists>n\<ge>Suc (xfers s). \<not> (\<exists>b bs. replies s n = Reply (b # bs) \<and> uint b \<noteq> 4)"
      by simp
    then show ?thesis using Suc_leD by blast
  qed
qed

lemma power_wait_never_powered:
  assumes "\<forall>n\<ge>xfers s. \<exists>b bs. replies s n = Reply (b # bs) \<and> uint b \<noteq> 4"
  shows "power_wait s = None"
proof (cases "power_wait s")
  case None
  then show ?thesis .
next
  case (Some r)
  from power_wait_Some_reason [OF Some] assms show ?thesis by blast
qed

lemma power_wait_powered_later:
  assumes "\<forall>n<k. \<exists>b bs. replies s (xfers s + n) = Reply (b # bs) \<and> uint b \<noteq> 4"
    and "replies s (xfers s + k) = Reply (b # bs)" and "uint b = 4"
  shows "\<exists>s'. power_wait s = Some (None, s') \<and> xfers s' = xfers s + Suc k"
  using assms
proof (induction k arbitrary: s)
  case 0
  then show ?case by (subst power_wait_unfold) (simp add: ctrl_transfer_eq)
next
  case (Suc k)
  let ?s1 = "snd (ctrl_transfer s DIR_IN GET_POWER 0 0 (WLength 1))"
  from Suc.prems(1) obtain b0 bs0 where r0: "replies s (xfers s) = Reply (b0 # bs0)"
    and n0: "uint b0 \<noteq> 4" by force
  have x1: "xfers ?s1 = Suc (xfers s)" and rp: "replies ?s1 = replies s"
    by (simp_all add: ctrl_transfer_eq)
  have "\<forall>n<k. \<exists>b bs. replies ?s1 (xfers ?s1 + n) = Reply (b # bs) \<and> uint b \<noteq> 4"
  proof (intro allI impI)
    fix n assume "n < k"
    then have "Suc n < Suc k" by simp
    with Suc.prems(1) have "\<exists>b bs. replies s (xfers s + Suc n) = Reply (b # bs) \<and> uint b \<noteq> 4"
      by blast
    then show "\<exists>b bs. replies ?s1 (xfers ?s1 + n) = Reply (b # bs) \<and> uint b \<noteq> 4"
      unfolding x1 rp by simp
  qed
  moreover have "replies ?s1 (xfers ?s1 + k) = Reply (b # bs)"
    using Suc.prems(2) unfolding x1 rp by simp
  ultimately obtain s' where "power_wait ?s1 = Some (None, s')" and "xfers s' = xfers ?s1 + Suc k"
    using Suc.IH [of ?s1] Suc.prems(3) by blast
  moreover have "power_wait s = power_wait ?s1"
    using r0 n0 by (subst power_wait_unfold) simp
  ultimately show ?case unfolding x1 by simp
qed

text \<open>
  The power loop does not touch the stored channel, and whatever way the constructor
  ends, with an exception or without, the channel field holds the constructor's argument.
\<close>

lemma power_wait_channel:
  assumes "power_wait s = Some rs"
  shows "channel (snd rs) = channel s"
proof (rule power_wait.raw_induct [where P = "\<lambda>s rs. channel (snd rs) = channel s", OF _ assms])
  fix pw :: "CC2531 \<Rightarrow> (error option \<times> CC2531) option" and s rs
  assume IH: "\<And>s rs. pw s = Some rs \<Longrightarrow> channel (snd rs) = channel s"
    and step: "(case ctrl_transfer s DIR_IN GET_POWER 0 0 (WLength 1) of
        (Inl e, s1) \<Rightarrow> Some (Some e, s1)
      | (Inr power_status, s1) \<Rightarrow>
          (case py_index power_status 0 of
             Inl e \<Rightarrow> Some (Some e, s1)
           | Inr b \<Rightarrow> if uint b = 4 then Some (None, s1) else pw s1)) = Some rs"
  let ?s1 = "s\<lparr>xfers := Suc (xfers s),
                events := events s @ [CtrlTransfer DIR_IN GET_POWER 0 0 (WLength 1)]\<rparr>"
  from step have "snd rs = ?s1 \<or> pw ?s1 = Some rs"
    by (auto simp: ctrl_transfer_eq split: reply.splits sum.splits if_splits)
  then show "channel (snd rs) = channel s"
    using IH [of ?s1 rs] by auto
qed

lemma set_channel_same_channel:
  "set_channel s (channel s) = (r, s') \<Longrightarrow> channel s' = channel s"
  using set_channel_channel [of s "channel s"] by auto

lemma power_wait_result_channel:
  "power_wait s = Some (r, s') \<Longrightarrow> channel s' = channel s"
  using power_wait_channel [of s "(r, s')"] by simp

lemma init_stores_argument:
  assumes "init env c = Some (r, s)"
  shows "channel s = c"
  using assms
  by (auto simp: init_def Let_def ctrl_transfer_eq
      split: found.splits if_splits option.splits reply.splits prod.splits
      dest!: power_wait_result_channel dest: set_channel_same_channel)

text \<open>
  Claim C4 says that the stored channel is between 11 and 26 at all times, after
  construction with any channel argument and after every operation, failing ones
  included. \<^verbatim>\<open>__init__\<close> stores its argument in \<^verbatim>\<open>self.channel\<close> before anything
  is checked; the check is in \<^verbatim>\<open>set_channel\<close>, its last statement. Construction with
  channel 5 on a working dongle raises ValueError and leaves 5 in the field of the object
  (which the caller never receives).
\<close>

theorem init_invalid_channel_stored:
  "map_option fst (init (dongle 4) 5) = Some (Some ValueError) \<and>
   map_option (channel \<circ> snd) (init (dongle 4) 5) = Some 5"
  by (simp add: init_def dongle_def set_channel_def ctrl_transfer_eq power_wait_unfold)

text \<open>
  Claim C4, amended. For every controller whose construction returned normally, with
  any channel argument, the stored channel is between 11 and 26 after construction and
  after every later sequence of \<^verbatim>\<open>set_channel\<close> (with any argument), \<^verbatim>\<open>start\<close> and
  \<^verbatim>\<open>stop\<close> calls, whether they raise or not.
\<close>

theorem channel_in_range_after_construction:
  assumes "init env c = Some (None, s)"
  shows "11 \<le> channel (calls s xs) \<and> channel (calls s xs) \<le> 26"
proof -
  from assms obtain s6 where "set_channel s6 c = (None, s)"
    using init_ok_set_channel by blast
  then have "11 \<le> channel s \<and> channel s \<le> 26"
    using set_channel_ok_channel by blast
  then show ?thesis by (rule calls_channel)
qed

theorem channel_in_range_after_construction_witness:
  "init (dongle 4) 15 = Some (None, idle) \<and>
   11 \<le> channel (calls idle [SetChannel 5, Start, SetChannel 20, Stop, Stop]) \<and>
   channel (calls idle [SetChannel 5, Start, SetChannel 20, Stop, Stop]) \<le> 26"
  using channel_in_range_after_construction [OF init_dongle_idle,
      of "[SetChannel 5, Start, SetChannel 20, Stop, Stop]"] init_dongle_idle
  by simp




text \<open>
  Claim C6. \<^verbatim>\<open>set_channel(c)\<close> with \<open>c < 11\<close> or \<open>c > 26\<close> raises ValueError (the
  specification's InvalidChannel) and leaves the whole state as it was: channel, flag,
  thread, and the events, so no control transfer is issued.
\<close>

theorem set_channel_out_of_range:
  "c < 11 \<or> 26 < c \<Longrightarrow> set_channel s c = (Some ValueError, s)"
  by (auto simp: set_channel_def)

theorem set_channel_out_of_range_witness:
  "((5::int) < 11 \<or> 26 < (5::int)) \<and> set_channel streaming 5 = (Some ValueError, streaming) \<and>
   ((27::int) < 11 \<or> 26 < (27::int)) \<and> set_channel idle 27 = (Some ValueError, idle)"
  using set_channel_out_of_range [of 5 streaming] set_channel_out_of_range [of 27 idle]
  by simp

text \<open>
  Claim C7 says that \<^verbatim>\<open>start()\<close> on a streaming controller fails with AlreadyStreaming.
  \<^verbatim>\<open>start\<close> has no test of \<^verbatim>\<open>self.running\<close>: on the streaming controller
  \<open>streaming\<close> it returns normally, having issued a second start command and started a
  second receiver thread.
\<close>

theorem start_while_running_no_error:
  "fst (start streaming) = None \<and> running (snd (start streaming)) \<and>
   thread (snd (start streaming)) = Some 1 \<and> spawned (snd (start streaming)) = 2 \<and>
   events (snd (start streaming)) =
     events streaming @ [CtrlTransfer DIR_OUT SET_START 0 0 NoData, ThreadStart 1]"
  by (simp add: start_def streaming_def idle_def ctrl_transfer_eq)

text \<open>
  Claim C7, amended. \<^verbatim>\<open>start()\<close> on a controller that is already streaming raises no
  usage error. When the device answers the start command, the call returns normally: one
  more start command is issued and one more receiver thread is started and stored in
  place of the old one. When the transfer fails, the call raises USBError and starts no
  thread. In both cases the flag stays set and the channel is unchanged.
\<close>

theorem start_while_running:
  assumes "running s"
  shows "(replies s (xfers s) \<noteq> Fail \<longrightarrow>
            fst (start s) = None \<and>
            thread (snd (start s)) = Some (spawned s) \<and>
            spawned (snd (start s)) = Suc (spawned s) \<and>
            events (snd (start s)) =
              events s @ [CtrlTransfer DIR_OUT SET_START 0 0 NoData, ThreadStart (spawned s)]) \<and>
         (replies s (xfers s) = Fail \<longrightarrow>
            fst (start s) = Some USBError \<and>
            thread (snd (start s)) = thread s \<and>
            spawned (snd (start s)) = spawned s \<and>
            events (snd (start s)) = events s @ [CtrlTransfer DIR_OUT SET_START 0 0 NoData]) \<and>
         running (snd (start s)) \<and> channel (snd (start s)) = channel s"
  by (simp add: start_def ctrl_transfer_eq split: reply.splits)

theorem start_while_running_witness:
  "running streaming \<and> replies streaming (xfers streaming) \<noteq> Fail \<and>
   fst (start streaming) = None \<and> thread (snd (start streaming)) = Some (spawned streaming) \<and>
   running (snd (start streaming)) \<and> channel (snd (start streaming)) = channel streaming"
proof -
  have h: "running streaming" by (simp add: streaming_def)
  have r: "replies streaming (xfers streaming) \<noteq> Fail" by (simp add: streaming_def idle_def)
  from start_while_running [OF h] h r show ?thesis by simp
qed

text \<open>
  Claim C8 says that the power loop of the constructor is bounded and that construction
  fails with PowerOnTimeout on a device that never reports the radio powered. The loop has
  no bound: on the dongle that answers every transfer with the byte 0 the constructor
  never returns.
\<close>

theorem init_never_returns:
  "init (dongle 0) 11 = None"
proof -
  have "power_wait ((dongle 0)\<lparr>dev := True, channel := 11, name := Some ''CC2531 USB Dongle'',
          ident := Some [0], xfers := Suc (Suc 0),
          events := [CtrlTransfer DIR_IN GET_IDENT 0 0 (WLength 256),
                     CtrlTransfer DIR_OUT SET_POWER 0 4 NoData]\<rparr>) = None"
    by (rule power_wait_never_powered) (simp add: dongle_def)
  then show ?thesis
    by (simp add: init_def dongle_def ctrl_transfer_eq)
qed

text \<open>
  Claim C8, amended. The power loop of the constructor is unbounded: on a device that is
  found and configured, answers the identity and power-on commands, and answers every
  power-status query with a first byte other than 4, construction never returns, and no
  error is raised.
\<close>

theorem init_power_wait_unbounded:
  assumes "found env = Device" and "config_ok env" and "descriptor env \<noteq> None"
    and "replies env (xfers env) \<noteq> Fail" and "replies env (xfers env + 1) \<noteq> Fail"
    and "\<forall>n\<ge>xfers env + 2. \<exists>b bs. replies env n = Reply (b # bs) \<and> uint b \<noteq> 4"
  shows "init env c = None"
proof -
  from assms(3) obtain nm where nm: "descriptor env = Some nm" by blast
  from assms(4) obtain idt where r0: "replies env (xfers env) = Reply idt"
    by (cases "replies env (xfers env)") simp_all
  from assms(5) obtain pw where r1: "replies env (Suc (xfers env)) = Reply pw"
    by (cases "replies env (Suc (xfers env))") simp_all
  let ?s5 = "env\<lparr>channel := c, thread := None, running := False, dev := True,
                  name := Some nm, ident := Some idt, xfers := Suc (Suc (xfers env)),
                  events := events env @ [CtrlTransfer DIR_IN GET_IDENT 0 0 (WLength 256),
                                          CtrlTransfer DIR_OUT SET_POWER 0 4 NoData]\<rparr>"
  have "power_wait ?s5 = None"
    using assms(6) by (intro power_wait_never_powered) simp
  then show ?thesis
    using assms(1,2) nm r0 r1 by (simp add: init_def ctrl_transfer_eq)
qed

theorem init_power_wait_unbounded_witness:
  "found (dongle 1) = Device \<and> config_ok (dongle 1) \<and> descriptor (dongle 1) \<noteq> None \<and>
   replies (dongle 1) (xfers (dongle 1)) \<noteq> Fail \<and>
   replies (dongle 1) (xfers (dongle 1) + 1) \<noteq> Fail \<and>
   replies (dongle 1) = (\<lambda>n. Reply [1]) \<and> uint (1 :: 8 word) \<noteq> 4 \<and>
   init (dongle 1) 11 = None"
proof -
  have h: "found (dongle 1) = Device" "config_ok (dongle 1)" "descriptor (dongle 1) \<noteq> None"
    "replies (dongle 1) (xfers (dongle 1)) \<noteq> Fail"
    "replies (dongle 1) (xfers (dongle 1) + 1) \<noteq> Fail"
    "\<forall>n\<ge>xfers (dongle 1) + 2. \<exists>b bs. replies (dongle 1) n = Reply (b # bs) \<and> uint b \<noteq> 4"
    by (simp_all add: dongle_def)
  from init_power_wait_unbounded [OF h, of 11] h show ?thesis by (simp add: dongle_def)
qed

end
